theory Spec2Isabelle
  imports
    Complex_Main
    "HOL-Library.Word"
    "HOL-Library.Signed_Division"
    "HOL-Library.Sublist"
begin

unbundle bit_operations_syntax

section \<open>AD9850 frequency generator with rotary encoder: the sketch as HOL functions\<close>

text \<open>
  The sketch \<^verbatim>\<open>AD9850_Freq_Gen_Encoder.ino\<close> has three interrupt handlers that change four
  volatile globals, a polling \<^verbatim>\<open>loop\<close> with two static locals, and a bit-banged serial
  transmitter. The globals and the static locals are the fields of one record; every
  handler and \<^verbatim>\<open>loop\<close> is a function from state to state. What the program does to the
  outside (pin writes, calls of the print functions) is appended to the field \<open>trace\<close>.

  \<^verbatim>\<open>long\<close> is 32 bits wide on the boards named in the header of the sketch, so it is a
  \<open>32 word\<close> read through \<open>sint\<close>. Signed overflow, undefined in the language, wraps in the
  model as the hardware does.
\<close>

subsection \<open>Pins, levels and the trace of effects\<close>

datatype level = LOW | HIGH

datatype pin_mode = INPUT_PULLUP | OUTPUT

datatype irq_mode = CHANGE | FALLING

datatype handler = H_Encoder1 | H_Encoder2 | H_Button

definition buttonPin :: int where "buttonPin = 13"
definition encoderPin1 :: int where "encoderPin1 = 19"
definition encoderPin2 :: int where "encoderPin2 = 18"
definition W_CLK :: int where "W_CLK = 5"
definition FQ_UD :: int where "FQ_UD = 6"
definition DATA :: int where "DATA = 11"
definition RESET :: int where "RESET = 12"

datatype event =
    SerialBegin int
  | PinMode int pin_mode
  | AttachInterrupt int handler irq_mode
  | AnalogReadResolution int
  | DigitalWrite int level
  | PrintFreq "32 word"
  | PrintInc "32 word"

text \<open>\<^verbatim>\<open>#define pulseHigh(pin) {digitalWrite(pin, HIGH); digitalWrite(pin, LOW); }\<close>\<close>

definition pulseHigh :: "int \<Rightarrow> event list" where
  "pulseHigh pin = [DigitalWrite pin HIGH, DigitalWrite pin LOW]"

text \<open>\<^verbatim>\<open>digitalWrite(pin, val)\<close> drives the pin low when \<open>val\<close> is 0 and high otherwise.\<close>

definition digitalWrite :: "int \<Rightarrow> 8 word \<Rightarrow> event" where
  "digitalWrite pin val = DigitalWrite pin (if val = 0 then LOW else HIGH)"

subsection \<open>Constants and program state\<close>

definition startVal :: "32 word" where "startVal = 1000"
definition minVal :: "32 word" where "minVal = 0"
definition maxVal :: "32 word" where "maxVal = 32000000"
definition startInc :: "32 word" where "startInc = 1000"
definition minInc :: "32 word" where "minInc = 1"
definition maxInc :: "32 word" where "maxInc = 1000000"
definition divInc :: "32 word" where "divInc = 10"

record state =
  encoderVal :: "32 word"
  encoderInc :: "32 word"
  encoderLH1 :: bool
  encoderLH2 :: bool
  lastEncoderVal :: "32 word"
  lastEncoderInc :: "32 word"
  trace :: "event list"

text \<open>The initialisers of the globals and of the static locals of \<^verbatim>\<open>loop\<close>.\<close>

definition init_state :: state where
  "init_state = \<lparr> encoderVal = startVal, encoderInc = startInc,
                  encoderLH1 = False, encoderLH2 = False,
                  lastEncoderVal = 1, lastEncoderInc = 0, trace = [] \<rparr>"

subsection \<open>Interrupt handlers\<close>

text \<open>C++ division of \<^verbatim>\<open>long\<close> truncates towards zero: \<open>sdiv\<close> on the signed values.\<close>

definition long_div :: "32 word \<Rightarrow> 32 word \<Rightarrow> 32 word" where
  "long_div a b = word_of_int (sint a sdiv sint b)"

definition ISR_Button :: "state \<Rightarrow> state" where
  "ISR_Button s = s\<lparr> encoderInc := long_div (encoderInc s) divInc \<rparr>"

text \<open>
  Each encoder handler calls \<^verbatim>\<open>digitalRead\<close> twice; the two readings \<open>r1\<close> and \<open>r2\<close> are
  inputs of the model. A rising edge is the handler running with both readings \<open>HIGH\<close>, a
  falling edge with both \<open>LOW\<close>.
\<close>

definition ISR_Encoder1 :: "level \<Rightarrow> level \<Rightarrow> state \<Rightarrow> state" where
  "ISR_Encoder1 r1 r2 s =
     (let s1 = (if r1 = HIGH
                then (let t = s\<lparr> encoderLH1 := True \<rparr>
                      in if \<not> encoderLH2 t
                         then t\<lparr> encoderVal := encoderVal t + encoderInc t \<rparr>
                         else t)
                else s)
      in if r2 = LOW then s1\<lparr> encoderLH1 := False \<rparr> else s1)"

definition ISR_Encoder2 :: "level \<Rightarrow> level \<Rightarrow> state \<Rightarrow> state" where
  "ISR_Encoder2 r1 r2 s =
     (let s1 = (if r1 = HIGH
                then (let t = s\<lparr> encoderLH2 := True \<rparr>
                      in if \<not> encoderLH1 t
                         then t\<lparr> encoderVal := encoderVal t - encoderInc t \<rparr>
                         else t)
                else s)
      in if r2 = LOW then s1\<lparr> encoderLH2 := False \<rparr> else s1)"

subsection \<open>Double-precision arithmetic\<close>

text \<open>
  \<^verbatim>\<open>sendFrequency\<close> computes in \<^verbatim>\<open>double\<close>. A finite double is the rational number it
  denotes, and every operation returns the exact result rounded to the nearest number
  with a 53-bit significand, ties to the even significand (IEEE 754 binary64, the
  default rounding, as on the ARM boards named in the header of the sketch). The exponent range is not modelled: the operands of the sketch
  are far from overflow, and a result small enough to be subnormal truncates to 0
  whichever way it is rounded.
\<close>

type_synonym double = rat

definition round_half_even :: "rat \<Rightarrow> int" where
  "round_half_even x =
     (let n = \<lfloor>x\<rfloor>; r = x - of_int n
      in if r < 1 / 2 then n
         else if 1 / 2 < r then n + 1
         else if even n then n else n + 1)"

text \<open>The number of binary digits of a positive integer.\<close>

function bit_length :: "int \<Rightarrow> int" where
  "bit_length n = (if n \<le> 0 then 0 else 1 + bit_length (n div 2))"
  by pat_completeness auto
termination
  by (relation "measure nat") auto

declare bit_length.simps [simp del]

text \<open>The exponent \<open>e\<close> with \<open>2 ^ e \<le> x < 2 ^ (e + 1)\<close>, for \<open>x > 0\<close>, from the bit lengths
  of numerator and denominator.\<close>

definition ilog2 :: "rat \<Rightarrow> int" where
  "ilog2 x =
     (let (p, q) = quotient_of x;
          k = bit_length p - bit_length q
      in if power_int 2 k \<le> x then k else k - 1)"

definition round_nearest_even :: "nat \<Rightarrow> rat \<Rightarrow> rat" where
  "round_nearest_even prec x =
     (if x = 0 then 0
      else (let e = ilog2 \<bar>x\<bar> - (int prec - 1); u = power_int 2 e
            in sgn x * of_int (round_half_even (\<bar>x\<bar> / u)) * u))"

definition double_prec :: nat where "double_prec = 53"

definition double_of_int :: "int \<Rightarrow> double" where
  "double_of_int n = round_nearest_even double_prec (of_int n)"

definition double_mul :: "double \<Rightarrow> double \<Rightarrow> double" where
  "double_mul a b = round_nearest_even double_prec (a * b)"

definition double_div :: "double \<Rightarrow> double \<Rightarrow> double" where
  "double_div a b = round_nearest_even double_prec (a / b)"

text \<open>
  Conversion of a double to \<^verbatim>\<open>int32_t\<close> drops the fraction (towards zero). When the
  truncated value does not fit, the conversion is undefined in C++; the word it then
  yields on a given platform is the parameter \<open>oor\<close>.
\<close>

definition trunc_rat :: "rat \<Rightarrow> int" where
  "trunc_rat x = (if 0 \<le> x then \<lfloor>x\<rfloor> else \<lceil>x\<rceil>)"

definition double_to_int32 :: "(double \<Rightarrow> 32 word) \<Rightarrow> double \<Rightarrow> 32 word" where
  "double_to_int32 oor x =
     (let n = trunc_rat x
      in if - (2 ^ 31) \<le> n \<and> n < 2 ^ 31 then word_of_int n else oor x)"

subsection \<open>The serial transmitter\<close>

text \<open>\<^verbatim>\<open>for (int i=0; i<8; i++, data>>=1) { digitalWrite(DATA, data & 0x01); pulseHigh(W_CLK); }\<close>\<close>

function tfr_byte_loop :: "int \<Rightarrow> 8 word \<Rightarrow> event list" where
  "tfr_byte_loop i data =
     (if i < 8
      then digitalWrite DATA (data AND 0x01) # pulseHigh W_CLK
             @ tfr_byte_loop (i + 1) (drop_bit 1 data)
      else [])"
  by pat_completeness auto
termination
  by (relation "measure (\<lambda>(i, data). nat (8 - i))") auto

definition tfr_byte :: "8 word \<Rightarrow> event list" where
  "tfr_byte data = tfr_byte_loop 0 data"

text \<open>
  \<^verbatim>\<open>int32_t freq = frequency * 4294967295/125000000;\<close> The two integer literals are
  converted to double (both exactly), the product is rounded, the quotient is rounded,
  and the result is converted to \<^verbatim>\<open>int32_t\<close>.
\<close>

definition sendFrequency_freq :: "(double \<Rightarrow> 32 word) \<Rightarrow> double \<Rightarrow> 32 word" where
  "sendFrequency_freq oor frequency =
     double_to_int32 oor
       (double_div (double_mul frequency (double_of_int 4294967295))
                   (double_of_int 125000000))"

text \<open>\<^verbatim>\<open>for (int b=0; b<4; b++, freq>>=8) { tfr_byte(freq & 0xFF); }\<close>
  The shift of the signed \<^verbatim>\<open>freq\<close> is arithmetic.\<close>

function sendFrequency_loop :: "int \<Rightarrow> 32 word \<Rightarrow> event list" where
  "sendFrequency_loop b freq =
     (if b < 4
      then tfr_byte (ucast (freq AND 0xFF)) @ sendFrequency_loop (b + 1) (signed_drop_bit 8 freq)
      else [])"
  by pat_completeness auto
termination
  by (relation "measure (\<lambda>(b, freq). nat (4 - b))") auto

definition sendFrequency :: "(double \<Rightarrow> 32 word) \<Rightarrow> double \<Rightarrow> event list" where
  "sendFrequency oor frequency =
     sendFrequency_loop 0 (sendFrequency_freq oor frequency)
       @ tfr_byte 0x000
       @ pulseHigh FQ_UD"

text \<open>
  Some toolchains for the MSP430 make \<^verbatim>\<open>double\<close> 32 bits wide, with a 24-bit significand.
  The same statement of \<^verbatim>\<open>sendFrequency\<close> there, every conversion and operation rounding to
  24 bits:
\<close>

definition single_prec :: nat where "single_prec = 24"

definition sendFrequency_freq_single :: "(double \<Rightarrow> 32 word) \<Rightarrow> int \<Rightarrow> 32 word" where
  "sendFrequency_freq_single oor frequency =
     double_to_int32 oor
       (round_nearest_even single_prec
          (round_nearest_even single_prec
             (round_nearest_even single_prec (of_int frequency)
                * round_nearest_even single_prec 4294967295)
           / round_nearest_even single_prec 125000000))"

subsection \<open>Initialisation and the controller loop\<close>

text \<open>The function \<^verbatim>\<open>setup\<close> of the sketch (its name is a keyword here, hence the
  suffix). The LCD calls are compiled only for one board and are left out.\<close>

definition setup_fn :: "state \<Rightarrow> state" where
  "setup_fn s = s\<lparr> trace := trace s @
     [SerialBegin 115200,
      PinMode buttonPin INPUT_PULLUP,
      PinMode encoderPin1 INPUT_PULLUP,
      PinMode encoderPin2 INPUT_PULLUP,
      AttachInterrupt encoderPin1 H_Encoder1 CHANGE,
      AttachInterrupt encoderPin2 H_Encoder2 CHANGE,
      AttachInterrupt buttonPin H_Button FALLING,
      PinMode FQ_UD OUTPUT,
      PinMode W_CLK OUTPUT,
      PinMode DATA OUTPUT,
      PinMode RESET OUTPUT,
      AnalogReadResolution 12]
     @ pulseHigh RESET
     @ pulseHigh W_CLK
     @ pulseHigh FQ_UD \<rparr>"

text \<open>
  One pass of \<^verbatim>\<open>loop\<close>, with no interrupt arriving during the pass. The comparisons of
  \<^verbatim>\<open>long\<close> values are signed. \<^verbatim>\<open>printFreq\<close> and \<^verbatim>\<open>printInc\<close> are recorded as calls.
  The pass with handlers running inside it is \<open>loop_irq\<close> further down; the two agree
  when no handler runs.
\<close>

definition loop_val :: "(double \<Rightarrow> 32 word) \<Rightarrow> state \<Rightarrow> state" where
  "loop_val oor s =
     (if lastEncoderVal s \<noteq> encoderVal s
      then (let s1 = (if maxVal <s encoderVal s then s\<lparr> encoderVal := maxVal \<rparr> else s);
                s2 = (if encoderVal s1 <s minVal then s1\<lparr> encoderVal := minVal \<rparr> else s1);
                s3 = s2\<lparr> trace := trace s2
                        @ sendFrequency oor (double_of_int (sint (encoderVal s2))) \<rparr>;
                s4 = s3\<lparr> trace := trace s3 @ [PrintFreq (encoderVal s3)] \<rparr>
            in s4\<lparr> lastEncoderVal := encoderVal s4 \<rparr>)
      else s)"

definition loop_inc :: "state \<Rightarrow> state" where
  "loop_inc s =
     (if lastEncoderInc s \<noteq> encoderInc s
      then (let s1 = (if encoderInc s <s minInc then s\<lparr> encoderInc := maxInc \<rparr> else s);
                s2 = s1\<lparr> trace := trace s1 @ [PrintInc (encoderInc s1)] \<rparr>
            in s2\<lparr> lastEncoderInc := encoderInc s2 \<rparr>)
      else s)"

definition loop :: "(double \<Rightarrow> 32 word) \<Rightarrow> state \<Rightarrow> state" where
  "loop oor s = loop_inc (loop_val oor s)"

subsection \<open>Program runs\<close>

text \<open>
  The runtime calls \<^verbatim>\<open>setup\<close> once and then \<^verbatim>\<open>loop\<close> forever; the handlers attached in
  \<^verbatim>\<open>setup\<close> run when their interrupt fires. A run is the list of what happened after
  \<^verbatim>\<open>setup\<close>, each entry a handler (with the pin readings it saw) or one pass of the loop.
\<close>

datatype step =
    Irq_Button
  | Irq_Encoder1 level level
  | Irq_Encoder2 level level
  | Loop_pass

fun do_step :: "(double \<Rightarrow> 32 word) \<Rightarrow> step \<Rightarrow> state \<Rightarrow> state" where
  "do_step oor Irq_Button s = ISR_Button s"
| "do_step oor (Irq_Encoder1 r1 r2) s = ISR_Encoder1 r1 r2 s"
| "do_step oor (Irq_Encoder2 r1 r2) s = ISR_Encoder2 r1 r2 s"
| "do_step oor Loop_pass s = loop oor s"

definition run_from :: "(double \<Rightarrow> 32 word) \<Rightarrow> state \<Rightarrow> step list \<Rightarrow> state" where
  "run_from oor s steps = foldl (\<lambda>t e. do_step oor e t) s steps"

definition run :: "(double \<Rightarrow> 32 word) \<Rightarrow> step list \<Rightarrow> state" where
  "run oor steps = run_from oor (setup_fn init_state) steps"


text \<open>One instance of the out-of-range conversion: saturation, as the conversion
  routines of the ARM boards do.\<close>

definition oor_saturate :: "double \<Rightarrow> 32 word" where
  "oor_saturate x = (if x < 0 then - (2 ^ 31) else 2 ^ 31 - 1)"

subsection \<open>What the specification compares the code with\<close>

text \<open>The tuning word of the specification: \<open>w = floor(f * 2^32 / 125_000_000)\<close>.\<close>

definition spec_tuning_word :: "int \<Rightarrow> int" where
  "spec_tuning_word f = \<lfloor>(of_int f :: rat) * 2 ^ 32 / 125000000\<rfloor>"

text \<open>The decoder of the specification: \<open>decode(w) = w * 125_000_000 / 2^32\<close>.\<close>

definition spec_decode :: "32 word \<Rightarrow> rat" where
  "spec_decode w = of_int (uint w) * 125000000 / 2 ^ 32"

text \<open>The wire protocol of one bit: the data line is set, then the load clock is pulsed.\<close>

definition clock_bit :: "bool \<Rightarrow> event list" where
  "clock_bit b =
     [DigitalWrite DATA (if b then HIGH else LOW), DigitalWrite W_CLK HIGH, DigitalWrite W_CLK LOW]"

text \<open>The bits of a byte, least significant first.\<close>

definition bits_lsb_first :: "8 word \<Rightarrow> bool list" where
  "bits_lsb_first w = map (bit w) [0 ..< 8]"

text \<open>Byte \<open>k\<close> of a 32-bit word, byte 0 the least significant.\<close>

definition byte_of :: "32 word \<Rightarrow> nat \<Rightarrow> 8 word" where
  "byte_of w k = ucast (drop_bit (8 * k) w)"

fun writes_pin :: "int \<Rightarrow> event \<Rightarrow> bool" where
  "writes_pin p (DigitalWrite q l) = (p = q)"
| "writes_pin p e = False"

fun is_DigitalWrite :: "event \<Rightarrow> bool" where
  "is_DigitalWrite (DigitalWrite q l) = True"
| "is_DigitalWrite e = False"



text \<open>The invariant of the loop's snapshot of the value: it is within the legal range.\<close>

definition loop_inv :: "state \<Rightarrow> bool" where
  "loop_inv s \<longleftrightarrow> 0 \<le> sint (lastEncoderVal s) \<and> sint (lastEncoderVal s) \<le> 32000000"

text \<open>The steps that are edges of an encoder channel.\<close>

fun is_encoder_irq :: "step \<Rightarrow> bool" where
  "is_encoder_irq (Irq_Encoder1 r1 r2) = True"
| "is_encoder_irq (Irq_Encoder2 r1 r2) = True"
| "is_encoder_irq e = False"

subsection \<open>A pass of the loop with interrupts inside it\<close>

text \<open>
  \<^verbatim>\<open>loop\<close> reads the volatile globals anew at every use and masks no interrupt, so
  handlers can run between any two of its accesses (a single read or write of a global
  is taken as indivisible). The handler runs that arrive in gap
  \<open>k\<close> of a pass are the list \<open>g k\<close>: gap 0 after the read of line 127; gap 1 between the
  read and the write of line 128; gap 2 after line 128; gap 3 between the read and the
  write of line 129; gap 4 after line 129; gap 5 after the read of line 130, during and
  after \<^verbatim>\<open>sendFrequency\<close>; gap 6 after the read of line 131, during and after \<^verbatim>\<open>printFreq\<close>;
  gap 7 after line 132; gap 8 after the read of line 135; gap 9 between the read and the
  write of line 136; gap 10 after line 136; gap 11 after the read of line 137, during
  and after \<^verbatim>\<open>printInc\<close>. The read and store of line 138 end the pass. The handlers write
  no pin, so the trace of a call is not changed by a handler that runs during it.
\<close>

datatype irq =
    Fire_Button
  | Fire_Encoder1 level level
  | Fire_Encoder2 level level

fun fire :: "irq \<Rightarrow> state \<Rightarrow> state" where
  "fire Fire_Button s = ISR_Button s"
| "fire (Fire_Encoder1 r1 r2) s = ISR_Encoder1 r1 r2 s"
| "fire (Fire_Encoder2 r1 r2) s = ISR_Encoder2 r1 r2 s"

definition fire_all :: "irq list \<Rightarrow> state \<Rightarrow> state" where
  "fire_all irqs s = foldl (\<lambda>t e. fire e t) s irqs"

definition loop_val_irq :: "(double \<Rightarrow> 32 word) \<Rightarrow> (nat \<Rightarrow> irq list) \<Rightarrow> state \<Rightarrow> state" where
  "loop_val_irq oor g s =
     (let r0 = encoderVal s;
          a0 = fire_all (g 0) s
      in if lastEncoderVal a0 \<noteq> r0
         then (let r1 = encoderVal a0;
                   a1 = fire_all (g 1) a0;
                   a2 = fire_all (g 2) (if maxVal <s r1 then a1\<lparr> encoderVal := maxVal \<rparr> else a1);
                   r3 = encoderVal a2;
                   a3 = fire_all (g 3) a2;
                   a4 = fire_all (g 4) (if r3 <s minVal then a3\<lparr> encoderVal := minVal \<rparr> else a3);
                   r5 = encoderVal a4;
                   a5 = fire_all (g 5)
                          (a4\<lparr> trace := trace a4 @ sendFrequency oor (double_of_int (sint r5)) \<rparr>);
                   r6 = encoderVal a5;
                   a6 = fire_all (g 6) (a5\<lparr> trace := trace a5 @ [PrintFreq r6] \<rparr>);
                   r7 = encoderVal a6
               in a6\<lparr> lastEncoderVal := r7 \<rparr>)
         else a0)"

definition loop_inc_irq :: "(nat \<Rightarrow> irq list) \<Rightarrow> state \<Rightarrow> state" where
  "loop_inc_irq g s =
     (let r8 = encoderInc s;
          a8 = fire_all (g 8) s
      in if lastEncoderInc a8 \<noteq> r8
         then (let r9 = encoderInc a8;
                   a9 = fire_all (g 9) a8;
                   a10 = fire_all (g 10) (if r9 <s minInc then a9\<lparr> encoderInc := maxInc \<rparr> else a9);
                   r11 = encoderInc a10;
                   a11 = fire_all (g 11) (a10\<lparr> trace := trace a10 @ [PrintInc r11] \<rparr>);
                   r12 = encoderInc a11
               in a11\<lparr> lastEncoderInc := r12 \<rparr>)
         else a8)"

definition loop_irq :: "(double \<Rightarrow> 32 word) \<Rightarrow> (nat \<Rightarrow> irq list) \<Rightarrow> state \<Rightarrow> state" where
  "loop_irq oor g s = loop_inc_irq g (fire_all (g 7) (loop_val_irq oor g s))"



text \<open>The button is pressed during \<^verbatim>\<open>printInc\<close> (gap 11).\<close>

definition press_in_printInc :: "nat \<Rightarrow> irq list" where
  "press_in_printInc k = (if k = 11 then [Fire_Button] else [])"

section \<open>Properties\<close>

subsection \<open>Signed arithmetic on \<^verbatim>\<open>long\<close>\<close>

lemma sint_word_of_int_32:
  "- (2 ^ 31) \<le> k \<Longrightarrow> k < 2 ^ 31 \<Longrightarrow> sint (word_of_int k :: 32 word) = k"
  by (simp add: sint_sbintrunc' signed_take_bit_int_eq_self)

lemma sint_long_bounds: "- (2 ^ 31) \<le> sint (w :: 32 word)" "sint (w :: 32 word) < 2 ^ 31"
  using sint_range_size [of w] by (simp_all add: word_size)


subsection \<open>The quadrature decoder\<close>

text \<open>
  C3. A rising edge on channel A while channel B's latch is false adds the current
  increment to the value and sets channel A's latch, changing nothing else; a rising
  edge on channel B while channel A's latch is false subtracts the increment and sets
  channel B's latch. The change of the signed value is exactly the increment whenever
  the sum (difference) is a \<^verbatim>\<open>long\<close>. A falling edge on a channel clears that channel's
  latch and changes nothing else.
\<close>

theorem encoder_edges:
  "(\<not> encoderLH2 s \<longrightarrow>
      ISR_Encoder1 HIGH HIGH s
        = s\<lparr> encoderLH1 := True, encoderVal := encoderVal s + encoderInc s \<rparr>)
   \<and> (\<not> encoderLH2 s \<and> - (2 ^ 31) \<le> sint (encoderVal s) + sint (encoderInc s)
        \<and> sint (encoderVal s) + sint (encoderInc s) < 2 ^ 31 \<longrightarrow>
      sint (encoderVal (ISR_Encoder1 HIGH HIGH s)) = sint (encoderVal s) + sint (encoderInc s))
   \<and> (\<not> encoderLH1 s \<longrightarrow>
      ISR_Encoder2 HIGH HIGH s
        = s\<lparr> encoderLH2 := True, encoderVal := encoderVal s - encoderInc s \<rparr>)
   \<and> (\<not> encoderLH1 s \<and> - (2 ^ 31) \<le> sint (encoderVal s) - sint (encoderInc s)
        \<and> sint (encoderVal s) - sint (encoderInc s) < 2 ^ 31 \<longrightarrow>
      sint (encoderVal (ISR_Encoder2 HIGH HIGH s)) = sint (encoderVal s) - sint (encoderInc s))
   \<and> ISR_Encoder1 LOW LOW s = s\<lparr> encoderLH1 := False \<rparr>
   \<and> ISR_Encoder2 LOW LOW s = s\<lparr> encoderLH2 := False \<rparr>"
  by (simp add: ISR_Encoder1_def ISR_Encoder2_def Let_def sint_word_ariths
      signed_take_bit_int_eq_self)

theorem encoder_edges_witness:
  "\<not> encoderLH2 init_state \<and> \<not> encoderLH1 init_state
   \<and> sint (encoderVal (ISR_Encoder1 HIGH HIGH init_state)) = 2000
   \<and> encoderLH1 (ISR_Encoder1 HIGH HIGH init_state)
   \<and> sint (encoderVal (ISR_Encoder2 HIGH HIGH init_state)) = 0
   \<and> encoderLH2 (ISR_Encoder2 HIGH HIGH init_state)
   \<and> encoderVal (ISR_Encoder1 LOW LOW init_state) = 1000"
  using encoder_edges [of init_state]
  by (simp add: init_state_def startVal_def startInc_def)

subsection \<open>The step size\<close>

lemma loop_val_inc [simp]:
  "encoderInc (loop_val oor s) = encoderInc s"
  "lastEncoderInc (loop_val oor s) = lastEncoderInc s"
  by (simp_all add: loop_val_def Let_def)



lemma long_div_decades:
  "long_div 1000000 divInc = 100000" "long_div 100000 divInc = 10000"
  "long_div 10000 divInc = 1000" "long_div 1000 divInc = 100"
  "long_div 100 divInc = 10" "long_div 10 divInc = 1" "long_div 1 divInc = 0"
  by (simp_all add: long_div_def divInc_def signed_divide_int_def)

lemma sless_minInc:
  "\<not> (100000 :: 32 word) <s minInc" "\<not> (10000 :: 32 word) <s minInc"
  "\<not> (1000 :: 32 word) <s minInc" "\<not> (100 :: 32 word) <s minInc"
  "\<not> (10 :: 32 word) <s minInc" "\<not> (1 :: 32 word) <s minInc" "(0 :: 32 word) <s minInc"
  by (simp_all add: minInc_def word_sless_alt)











lemma fire_all_Nil [simp]: "fire_all [] s = s"
  by (simp add: fire_all_def)





text \<open>
  A press that arrives inside a pass can do the same from an observed decade value:
  with increment 10 observed, a press before the pass and a press during \<^verbatim>\<open>printInc\<close> leave
  increment and snapshot both 0.
\<close>

lemma press_inside_pass_sticks:
  "encoderInc (run oor [Loop_pass, Irq_Button, Irq_Button, Loop_pass]) = 10"
  "lastEncoderInc (run oor [Loop_pass, Irq_Button, Irq_Button, Loop_pass]) = 10"
  "encoderInc (loop_irq oor press_in_printInc
     (ISR_Button (run oor [Loop_pass, Irq_Button, Irq_Button, Loop_pass]))) = 0"
  "lastEncoderInc (loop_irq oor press_in_printInc
     (ISR_Button (run oor [Loop_pass, Irq_Button, Irq_Button, Loop_pass]))) = 0"
  by code_simp+



subsection \<open>Clamping of the value\<close>

lemma loop_inc_val [simp]:
  "encoderVal (loop_inc s) = encoderVal s" "lastEncoderVal (loop_inc s) = lastEncoderVal s"
  by (simp_all add: loop_inc_def Let_def)





lemma loop_inv_ISR [simp]:
  "loop_inv (ISR_Button s) = loop_inv s"
  "loop_inv (ISR_Encoder1 r1 r2 s) = loop_inv s"
  "loop_inv (ISR_Encoder2 r1 r2 s) = loop_inv s"
  by (simp_all add: loop_inv_def ISR_Button_def ISR_Encoder1_def ISR_Encoder2_def Let_def)









subsection \<open>The window in which the increment is 0\<close>

lemma ISR_Encoder_zero_inc:
  assumes "encoderInc s = 0"
  shows "encoderVal (ISR_Encoder1 r1 r2 s) = encoderVal s"
    and "encoderVal (ISR_Encoder2 r1 r2 s) = encoderVal s"
    and "encoderInc (ISR_Encoder1 r1 r2 s) = 0"
    and "encoderInc (ISR_Encoder2 r1 r2 s) = 0"
  using assms by (simp_all add: ISR_Encoder1_def ISR_Encoder2_def Let_def)

lemma run_from_Cons [simp]: "run_from oor s (e # es) = run_from oor (do_step oor e s) es"
  by (simp add: run_from_def)

lemma run_from_Nil [simp]: "run_from oor s [] = s"
  by (simp add: run_from_def)

lemma encoder_irqs_zero_inc:
  "encoderInc s = 0 \<Longrightarrow> list_all is_encoder_irq es \<Longrightarrow>
     encoderVal (run_from oor s es) = encoderVal s \<and> encoderInc (run_from oor s es) = 0"
proof (induction es arbitrary: s)
  case Nil
  then show ?case by simp
next
  case (Cons e es)
  from Cons.prems(2) have e: "is_encoder_irq e" and es: "list_all is_encoder_irq es"
    by simp_all
  from e Cons.prems(1)
  have "encoderInc (do_step oor e s) = 0 \<and> encoderVal (do_step oor e s) = encoderVal s"
    by (cases e) (simp_all add: ISR_Encoder_zero_inc)
  with Cons.IH [of "do_step oor e s"] es show ?case by simp
qed

text \<open>
  C10. A button press while the increment is 1 leaves the increment 0. From then on a
  rising edge on either channel, and any sequence of encoder edges, leaves the value as
  it was, the increment staying 0; the next pass of the loop (whose snapshot is not 0)
  sets the increment to 1,000,000.
\<close>

theorem zero_increment_window:
  assumes "encoderInc s = 1"
  shows "encoderInc (ISR_Button s) = 0
     \<and> encoderVal (ISR_Encoder1 HIGH HIGH (ISR_Button s)) = encoderVal s
     \<and> encoderVal (ISR_Encoder2 HIGH HIGH (ISR_Button s)) = encoderVal s
     \<and> (list_all is_encoder_irq es \<longrightarrow>
           encoderVal (run_from oor (ISR_Button s) es) = encoderVal s
           \<and> encoderInc (run_from oor (ISR_Button s) es) = 0)
     \<and> (lastEncoderInc s \<noteq> 0 \<longrightarrow> encoderInc (loop oor (ISR_Button s)) = 1000000)"
proof -
  have z: "encoderInc (ISR_Button s) = 0"
    using assms by (simp add: ISR_Button_def long_div_decades)
  have v: "encoderVal (ISR_Button s) = encoderVal s" "lastEncoderInc (ISR_Button s) = lastEncoderInc s"
    by (simp_all add: ISR_Button_def)
  have w: "lastEncoderInc s \<noteq> 0 \<Longrightarrow> encoderInc (loop oor (ISR_Button s)) = 1000000"
    using z v by (simp add: loop_def loop_inc_def Let_def sless_minInc maxInc_def)
  show ?thesis
    using z v w ISR_Encoder_zero_inc [OF z] encoder_irqs_zero_inc [OF z, of es oor]
    by simp
qed

theorem zero_increment_window_witness:
  "encoderInc (init_state\<lparr> encoderInc := 1, lastEncoderInc := 1 \<rparr>) = 1
   \<and> list_all is_encoder_irq [Irq_Encoder1 HIGH HIGH, Irq_Encoder1 LOW LOW, Irq_Encoder2 HIGH HIGH]
   \<and> lastEncoderInc (init_state\<lparr> encoderInc := 1, lastEncoderInc := 1 \<rparr>) \<noteq> 0
   \<and> encoderInc (ISR_Button (init_state\<lparr> encoderInc := 1, lastEncoderInc := 1 \<rparr>)) = 0
   \<and> encoderVal (ISR_Encoder1 HIGH HIGH
         (ISR_Button (init_state\<lparr> encoderInc := 1, lastEncoderInc := 1 \<rparr>))) = 1000
   \<and> encoderVal (run_from oor_saturate
         (ISR_Button (init_state\<lparr> encoderInc := 1, lastEncoderInc := 1 \<rparr>))
         [Irq_Encoder1 HIGH HIGH, Irq_Encoder1 LOW LOW, Irq_Encoder2 HIGH HIGH]) = 1000
   \<and> encoderInc (loop oor_saturate
         (ISR_Button (init_state\<lparr> encoderInc := 1, lastEncoderInc := 1 \<rparr>))) = 1000000"
  using zero_increment_window [of "init_state\<lparr> encoderInc := 1, lastEncoderInc := 1 \<rparr>"
      "[Irq_Encoder1 HIGH HIGH, Irq_Encoder1 LOW LOW, Irq_Encoder2 HIGH HIGH]" oor_saturate]
  by (simp add: init_state_def startVal_def)

subsection \<open>Initialisation\<close>

lemma prefix_trace_do_step: "prefix (trace s) (trace (do_step oor e s))"
  by (cases e)
    (simp_all add: ISR_Button_def ISR_Encoder1_def ISR_Encoder2_def loop_def loop_val_def
      loop_inc_def Let_def)

lemma prefix_trace_run_from: "prefix (trace s) (trace (run_from oor s steps))"
proof (induction steps arbitrary: s)
  case Nil
  show ?case by simp
next
  case (Cons e es)
  have "prefix (trace s) (trace (do_step oor e s))" by (rule prefix_trace_do_step)
  also have "prefix (trace (do_step oor e s)) (trace (run_from oor (do_step oor e s) es))"
    by (rule Cons.IH)
  finally show ?case by simp
qed

text \<open>
  C9. The pin writes of the initialisation are, in this order and once each: reset high,
  reset low, load clock high, load clock low, frequency update high, frequency update
  low. The trace of every run begins with the trace of the initialisation, so whatever
  frame is transmitted comes after it.
\<close>

theorem setup_pulses:
  "filter is_DigitalWrite (trace (setup_fn init_state))
     = [DigitalWrite RESET HIGH, DigitalWrite RESET LOW,
        DigitalWrite W_CLK HIGH, DigitalWrite W_CLK LOW,
        DigitalWrite FQ_UD HIGH, DigitalWrite FQ_UD LOW]
   \<and> prefix (trace (setup_fn init_state)) (trace (run oor steps))"
  using prefix_trace_run_from [of "setup_fn init_state" oor steps]
  by (simp add: run_def setup_fn_def init_state_def pulseHigh_def)

subsection \<open>The serial frame\<close>

lemma and_one_eq_0_iff: "(w AND 1 = 0) \<longleftrightarrow> \<not> bit (w :: 8 word) 0"
  by (simp add: and_one_eq bit_0 even_iff_mod_2_eq_zero)

lemma digitalWrite_bit:
  "digitalWrite DATA (drop_bit k data AND 0x01) = DigitalWrite DATA (if bit data k then HIGH else LOW)"
  by (simp add: digitalWrite_def and_one_eq_0_iff bit_drop_bit_eq)

lemma tfr_byte_loop_step:
  "i < 8 \<Longrightarrow> tfr_byte_loop i data
     = digitalWrite DATA (data AND 0x01) # pulseHigh W_CLK @ tfr_byte_loop (i + 1) (drop_bit 1 data)"
  "\<not> i < 8 \<Longrightarrow> tfr_byte_loop i data = []"
  by simp_all

declare tfr_byte_loop.simps [simp del]

lemma tfr_byte_bits: "tfr_byte data = concat (map clock_bit (bits_lsb_first data))"
proof -
  have d: "digitalWrite DATA (data AND 1) = DigitalWrite DATA (if bit data 0 then HIGH else LOW)"
    using digitalWrite_bit [of 0 data] by simp
  show ?thesis
    by (simp add: tfr_byte_def tfr_byte_loop_step bits_lsb_first_def clock_bit_def pulseHigh_def
        upt_rec [of _ "numeral _"] upt_rec [of 0 1] d
        digitalWrite_bit [of _ data, simplified])
qed

lemma sendFrequency_loop_step:
  "b < 4 \<Longrightarrow> sendFrequency_loop b freq
     = tfr_byte (ucast (freq AND 0xFF)) @ sendFrequency_loop (b + 1) (signed_drop_bit 8 freq)"
  "\<not> b < 4 \<Longrightarrow> sendFrequency_loop b freq = []"
  by simp_all

declare sendFrequency_loop.simps [simp del]

lemma FF_mask: "(0xFF :: 32 word) = mask 8"
  by (simp add: mask_eq_exp_minus_1)

lemma ucast_and_FF: "(ucast ((w :: 32 word) AND 0xFF) :: 8 word) = ucast w"
  unfolding FF_mask by (rule bit_word_eqI) (auto simp: bit_simps)

lemma low_byte_signed_drop_bit:
  "k \<le> 24 \<Longrightarrow> (ucast (signed_drop_bit k (w :: 32 word)) :: 8 word) = ucast (drop_bit k w)"
  by (rule bit_word_eqI) (auto simp: bit_simps)

lemma byte_of_0: "byte_of w 0 = ucast w"
  by (simp add: byte_of_def)

lemma sendFrequency_loop_bytes:
  "sendFrequency_loop 0 w
     = tfr_byte (byte_of w 0) @ tfr_byte (byte_of w 1) @ tfr_byte (byte_of w 2)
       @ tfr_byte (byte_of w 3)"
  by (simp add: sendFrequency_loop_step ucast_and_FF byte_of_def low_byte_signed_drop_bit)

lemma reassemble:
  "(ucast (byte_of w 0) :: 32 word) OR push_bit 8 (ucast (byte_of w 1))
     OR push_bit 16 (ucast (byte_of w 2)) OR push_bit 24 (ucast (byte_of w 3)) = w"
proof (rule bit_word_eqI)
  fix n :: nat
  assume "n < LENGTH(32)"
  then have n: "n < 32" by simp
  consider "n < 8" | "8 \<le> n" "n < 16" | "16 \<le> n" "n < 24" | "24 \<le> n" "n < 32"
    using n by linarith
  then show "bit ((ucast (byte_of w 0) :: 32 word) OR push_bit 8 (ucast (byte_of w 1))
     OR push_bit 16 (ucast (byte_of w 2)) OR push_bit 24 (ucast (byte_of w 3))) n = bit w n"
  proof cases
    case 1
    then show ?thesis by (simp add: bit_simps byte_of_def)
  next
    case 2
    then show ?thesis by (auto simp: bit_simps byte_of_def)
  next
    case 3
    then show ?thesis by (auto simp: bit_simps byte_of_def)
  next
    case 4
    then show ?thesis by (auto simp: bit_simps byte_of_def)
  qed
qed

lemma length_bits_lsb_first [simp]: "length (bits_lsb_first w) = 8"
  by (simp add: bits_lsb_first_def)

lemma pins_distinct:
  "DATA \<noteq> W_CLK" "DATA \<noteq> FQ_UD" "W_CLK \<noteq> FQ_UD" "W_CLK \<noteq> DATA" "FQ_UD \<noteq> DATA"
  "FQ_UD \<noteq> W_CLK"
  by (simp_all add: DATA_def W_CLK_def FQ_UD_def)

lemma clock_bits_length: "length (concat (map clock_bit bs)) = 3 * length bs"
  by (induction bs) (simp_all add: clock_bit_def)

lemma clock_bits_DATA:
  "length (filter (writes_pin DATA) (concat (map clock_bit bs))) = length bs"
  by (induction bs) (simp_all add: clock_bit_def pins_distinct)

lemma clock_bits_W_CLK:
  "filter (writes_pin W_CLK) (concat (map clock_bit bs))
     = concat (replicate (length bs) (pulseHigh W_CLK))"
  by (induction bs) (simp_all add: clock_bit_def pulseHigh_def pins_distinct)

lemma clock_bits_FQ_UD: "filter (writes_pin FQ_UD) (concat (map clock_bit bs)) = []"
  by (induction bs) (simp_all add: clock_bit_def pins_distinct)

lemma sendFrequency_bits:
  "sendFrequency oor f
     = concat (map clock_bit (concat (map bits_lsb_first
         [byte_of (sendFrequency_freq oor f) 0, byte_of (sendFrequency_freq oor f) 1,
          byte_of (sendFrequency_freq oor f) 2, byte_of (sendFrequency_freq oor f) 3, 0])))
       @ pulseHigh FQ_UD"
  by (simp add: sendFrequency_def sendFrequency_loop_bytes tfr_byte_bits)

lemma frame_shape:
  assumes "tr = concat (map clock_bit bs) @ pulseHigh FQ_UD" and "length bs = 40"
  shows "length (filter (writes_pin DATA) tr) = 40"
    and "filter (writes_pin W_CLK) tr = concat (replicate 40 (pulseHigh W_CLK))"
    and "filter (writes_pin FQ_UD) tr = [DigitalWrite FQ_UD HIGH, DigitalWrite FQ_UD LOW]"
    and "filter (writes_pin FQ_UD) (take 120 tr) = []"
    and "drop 120 tr = [DigitalWrite FQ_UD HIGH, DigitalWrite FQ_UD LOW]"
proof -
  have l: "length (concat (map clock_bit bs)) = 120"
    using assms(2) by (simp add: clock_bits_length)
  show "length (filter (writes_pin DATA) tr) = 40"
    using assms by (simp add: clock_bits_DATA pulseHigh_def pins_distinct)
  show "filter (writes_pin W_CLK) tr = concat (replicate 40 (pulseHigh W_CLK))"
    using assms by (simp add: clock_bits_W_CLK pulseHigh_def pins_distinct)
  show "filter (writes_pin FQ_UD) tr = [DigitalWrite FQ_UD HIGH, DigitalWrite FQ_UD LOW]"
    using assms by (simp add: clock_bits_FQ_UD pulseHigh_def)
  show "filter (writes_pin FQ_UD) (take 120 tr) = []"
    using assms(1) l by (simp add: clock_bits_FQ_UD)
  show "drop 120 tr = [DigitalWrite FQ_UD HIGH, DigitalWrite FQ_UD LOW]"
    using assms(1) l by (simp add: pulseHigh_def)
qed

text \<open>
  C2. The pin writes of one call of \<^verbatim>\<open>sendFrequency\<close> are, for each of the five bytes in
  turn and for each of its bits from bit 0 to bit 7, a write of the bit to the data line
  followed by load clock high and load clock low; then update line high, update line
  low. There are 40 bits, 40 writes of the data line and 40 clock pulses. The update
  line is written only in the last two of the 122 writes, after all 40 bits.
\<close>

theorem frame_protocol:
  "sendFrequency oor f
     = concat (map clock_bit (concat (map bits_lsb_first
         [byte_of (sendFrequency_freq oor f) 0, byte_of (sendFrequency_freq oor f) 1,
          byte_of (sendFrequency_freq oor f) 2, byte_of (sendFrequency_freq oor f) 3, 0])))
       @ [DigitalWrite FQ_UD HIGH, DigitalWrite FQ_UD LOW]
   \<and> length (concat (map bits_lsb_first
         [byte_of (sendFrequency_freq oor f) 0, byte_of (sendFrequency_freq oor f) 1,
          byte_of (sendFrequency_freq oor f) 2, byte_of (sendFrequency_freq oor f) 3, 0])) = 40
   \<and> length (filter (writes_pin DATA) (sendFrequency oor f)) = 40
   \<and> filter (writes_pin W_CLK) (sendFrequency oor f) = concat (replicate 40 (pulseHigh W_CLK))
   \<and> filter (writes_pin FQ_UD) (sendFrequency oor f)
       = [DigitalWrite FQ_UD HIGH, DigitalWrite FQ_UD LOW]
   \<and> filter (writes_pin FQ_UD) (take 120 (sendFrequency oor f)) = []
   \<and> drop 120 (sendFrequency oor f) = [DigitalWrite FQ_UD HIGH, DigitalWrite FQ_UD LOW]"
proof -
  let ?bs = "concat (map bits_lsb_first
         [byte_of (sendFrequency_freq oor f) 0, byte_of (sendFrequency_freq oor f) 1,
          byte_of (sendFrequency_freq oor f) 2, byte_of (sendFrequency_freq oor f) 3, 0])"
  have len: "length ?bs = 40" by simp
  have eq: "sendFrequency oor f = concat (map clock_bit ?bs) @ pulseHigh FQ_UD"
    by (rule sendFrequency_bits)
  from frame_shape [OF eq len] eq len show ?thesis
    by (simp only: pulseHigh_def simp_thms)
qed

lemma clock_bit_inj: "clock_bit a = clock_bit b \<longleftrightarrow> a = b"
  by (cases a; cases b) (simp_all add: clock_bit_def)

lemma length_clock_bit [simp]: "length (clock_bit a) = 3"
  by (simp add: clock_bit_def)

lemma clock_bits_inj:
  "concat (map clock_bit as) = concat (map clock_bit bs) \<longleftrightarrow> as = bs"
proof (induction as arbitrary: bs)
  case Nil
  show ?case by (cases bs) (simp_all add: clock_bit_def)
next
  case (Cons a as)
  show ?case
  proof (cases bs)
    case Nil
    then show ?thesis by (simp add: clock_bit_def)
  next
    case (Cons b bs')
    then show ?thesis
      using Cons.IH [of bs'] by (simp add: clock_bit_inj)
  qed
qed

lemma bits_lsb_first_inj: "bits_lsb_first a = bits_lsb_first b \<longleftrightarrow> a = b"
proof
  assume eq: "bits_lsb_first a = bits_lsb_first b"
  show "a = b"
  proof (rule bit_word_eqI)
    fix n assume "n < LENGTH(8)"
    then have n: "n < 8" by simp
    from eq have "bits_lsb_first a ! n = bits_lsb_first b ! n" by simp
    with n show "bit a n = bit b n" by (simp add: bits_lsb_first_def)
  qed
qed simp

text \<open>
  C6. For every frequency, and whatever word the conversion yields, the pin writes of
  one call of \<^verbatim>\<open>sendFrequency\<close> are the frames of exactly five bytes followed by the pulse
  of the update line, the frame of a byte being its eight bits on the wire from bit 0
  to bit 7. The five bytes are bytes 0, 1, 2, 3 of the tuning word, least significant
  first (put back together in that order they give the tuning word), and then the byte
  0, whose frame holds the data line low eight times. Different bytes have different
  frames. The call makes 122 pin writes.
\<close>

theorem sendFrequency_five_bytes:
  "sendFrequency oor f
     = concat (map (\<lambda>b. concat (map clock_bit (bits_lsb_first b)))
         [byte_of (sendFrequency_freq oor f) 0, byte_of (sendFrequency_freq oor f) 1,
          byte_of (sendFrequency_freq oor f) 2, byte_of (sendFrequency_freq oor f) 3, 0])
       @ [DigitalWrite FQ_UD HIGH, DigitalWrite FQ_UD LOW]
   \<and> concat (map clock_bit (bits_lsb_first 0))
       = concat (replicate 8
           [DigitalWrite DATA LOW, DigitalWrite W_CLK HIGH, DigitalWrite W_CLK LOW])
   \<and> (concat (map clock_bit (bits_lsb_first a)) = concat (map clock_bit (bits_lsb_first b)))
       = (a = b)
   \<and> length (sendFrequency oor f) = 5 * (8 * 3) + 2
   \<and> (ucast (byte_of (sendFrequency_freq oor f) 0) :: 32 word)
       OR push_bit 8 (ucast (byte_of (sendFrequency_freq oor f) 1))
       OR push_bit 16 (ucast (byte_of (sendFrequency_freq oor f) 2))
       OR push_bit 24 (ucast (byte_of (sendFrequency_freq oor f) 3))
     = sendFrequency_freq oor f"
proof -
  have a: "sendFrequency oor f
     = concat (map (\<lambda>b. concat (map clock_bit (bits_lsb_first b)))
         [byte_of (sendFrequency_freq oor f) 0, byte_of (sendFrequency_freq oor f) 1,
          byte_of (sendFrequency_freq oor f) 2, byte_of (sendFrequency_freq oor f) 3, 0])
       @ [DigitalWrite FQ_UD HIGH, DigitalWrite FQ_UD LOW]"
    by (simp add: sendFrequency_bits pulseHigh_def)
  have b: "concat (map clock_bit (bits_lsb_first 0))
       = concat (replicate 8
           [DigitalWrite DATA LOW, DigitalWrite W_CLK HIGH, DigitalWrite W_CLK LOW])"
    by (simp add: bits_lsb_first_def clock_bit_def upt_rec [of _ "numeral _"] upt_rec [of 0 1]
        numeral_eq_Suc)
  have c: "(concat (map clock_bit (bits_lsb_first a)) = concat (map clock_bit (bits_lsb_first b)))
       = (a = b)"
    by (simp add: clock_bits_inj bits_lsb_first_inj)
  have d: "length (sendFrequency oor f) = 5 * (8 * 3) + 2"
    unfolding sendFrequency_bits by (simp add: clock_bits_length pulseHigh_def)
  from a b c d reassemble [of "sendFrequency_freq oor f"] show ?thesis
    by (simp only: simp_thms)
qed

subsection \<open>The tuning word\<close>

lemma spec_tuning_word_div: "spec_tuning_word f = (f * 2 ^ 32) div 125000000"
proof -
  have "(of_int f :: rat) * 2 ^ 32 / 125000000 = of_int (f * 2 ^ 32) / of_int 125000000"
    by simp
  then show ?thesis
    unfolding spec_tuning_word_def by (simp only: floor_divide_of_int_eq)
qed

subsection \<open>Accuracy of the double arithmetic\<close>

text \<open>
  Rounding to \<open>prec\<close> bits moves a positive number by at most the fraction \<open>1 / 2 ^ prec\<close>
  of itself. For that, \<open>ilog2\<close> must bracket its argument between two powers of 2.
\<close>

lemma bit_length_0: "n \<le> 0 \<Longrightarrow> bit_length n = 0"
  by (subst bit_length.simps) simp

lemma bit_length_rec: "0 < n \<Longrightarrow> bit_length n = 1 + bit_length (n div 2)"
  by (subst bit_length.simps) simp

lemma bit_length_nonneg: "0 \<le> bit_length n"
proof (induction n rule: bit_length.induct)
  case (1 n)
  show ?case
  proof (cases "n \<le> 0")
    case True
    then show ?thesis by (simp add: bit_length_0)
  next
    case False
    with 1 show ?thesis by (simp add: bit_length_rec)
  qed
qed

lemma bit_length_pos: "0 < n \<Longrightarrow> 0 < bit_length n"
  using bit_length_nonneg [of "n div 2"] by (simp add: bit_length_rec)

lemma bit_length_bounds:
  "0 < n \<Longrightarrow> 2 ^ nat (bit_length n - 1) \<le> n \<and> n < 2 ^ nat (bit_length n)"
proof (induction n rule: bit_length.induct)
  case (1 n)
  show ?case
  proof (cases "n = 1")
    case True
    have "bit_length 1 = 1"
      by (simp add: bit_length_rec bit_length_0)
    with True show ?thesis by simp
  next
    case False
    with "1.prems" have n2: "2 \<le> n" by simp
    then have h: "0 < n div 2" by simp
    with 1 n2 have ih: "2 ^ nat (bit_length (n div 2) - 1) \<le> n div 2"
      "n div 2 < 2 ^ nat (bit_length (n div 2))" by simp_all
    have bl: "bit_length n = 1 + bit_length (n div 2)"
      using n2 by (simp add: bit_length_rec)
    have pos: "0 < bit_length (n div 2)" using h by (rule bit_length_pos)
    then have e: "nat (bit_length (n div 2)) = Suc (nat (bit_length (n div 2) - 1))"
      by simp
    have "2 * 2 ^ nat (bit_length (n div 2) - 1) \<le> 2 * (n div 2)" using ih(1) by simp
    also have "\<dots> \<le> n" by simp
    finally have lo: "2 ^ nat (bit_length (n div 2)) \<le> n" by (simp add: e)
    have "n < 2 * (n div 2) + 2" by presburger
    also have "\<dots> \<le> 2 * 2 ^ nat (bit_length (n div 2))" using ih(2) by simp
    finally have hi: "n < 2 ^ Suc (nat (bit_length (n div 2)))" by simp
    from lo hi pos show ?thesis
      by (simp add: bl nat_add_distrib)
  qed
qed

lemma power_int_2_nat: "0 \<le> b \<Longrightarrow> power_int (2 :: rat) b = of_int (2 ^ nat b)"
  by (simp add: power_int_def)

lemma ilog2_bounds:
  assumes "0 < x"
  shows "power_int 2 (ilog2 x) \<le> x" and "x < power_int 2 (ilog2 x + 1)"
proof -
  obtain p q where pq: "quotient_of x = (p, q)" by (cases "quotient_of x")
  then have q: "0 < q" by (rule quotient_of_denom_pos)
  from pq have x: "x = of_int p / of_int q" by (rule quotient_of_div)
  with assms q have p: "0 < p" by (simp add: zero_less_divide_iff)
  let ?bp = "bit_length p" and ?bq = "bit_length q"
  let ?k = "?bp - ?bq"
  have bp: "0 < ?bp" and bq: "0 < ?bq" using p q by (simp_all add: bit_length_pos)
  have "of_int p < (of_int (2 ^ nat ?bp) :: rat)"
    using bit_length_bounds [OF p] by (simp only: of_int_less_iff)
  then have p_hi: "of_int p < power_int (2 :: rat) ?bp"
    using bp by (simp add: power_int_2_nat)
  have "(of_int (2 ^ nat (?bp - 1)) :: rat) \<le> of_int p"
    using bit_length_bounds [OF p] by (simp only: of_int_le_iff)
  then have p_lo: "power_int (2 :: rat) (?bp - 1) \<le> of_int p"
    using bp by (simp add: power_int_2_nat)
  have "of_int q < (of_int (2 ^ nat ?bq) :: rat)"
    using bit_length_bounds [OF q] by (simp only: of_int_less_iff)
  then have q_hi: "of_int q < power_int (2 :: rat) ?bq"
    using bq by (simp add: power_int_2_nat)
  have "(of_int (2 ^ nat (?bq - 1)) :: rat) \<le> of_int q"
    using bit_length_bounds [OF q] by (simp only: of_int_le_iff)
  then have q_lo: "power_int (2 :: rat) (?bq - 1) \<le> of_int q"
    using bq by (simp add: power_int_2_nat)
  have qpos: "(0 :: rat) < of_int q" using q by simp
  have P: "(0 :: rat) < power_int 2 n" for n by (simp add: zero_less_power_int)
  have hi: "x < power_int 2 (?k + 1)"
  proof -
    have "x * of_int q = of_int p" using x qpos by simp
    also have "\<dots> < power_int (2 :: rat) ?bp" by (rule p_hi)
    also have "\<dots> = power_int 2 (?k + 1) * power_int 2 (?bq - 1)"
      by (simp add: power_int_add [symmetric])
    also have "\<dots> \<le> power_int 2 (?k + 1) * of_int q"
      using q_lo P [of "?k + 1"] by (simp add: mult_left_mono)
    finally show ?thesis using qpos by (simp add: mult_less_cancel_right)
  qed
  have lo: "power_int 2 (?k - 1) \<le> x"
  proof -
    have "power_int (2 :: rat) (?k - 1) * of_int q \<le> power_int 2 (?k - 1) * power_int 2 ?bq"
      using q_hi P [of "?k - 1"] by (simp add: mult_left_mono)
    also have "\<dots> = power_int 2 (?bp - 1)"
      by (simp add: power_int_add [symmetric])
    also have "\<dots> \<le> of_int p" by (rule p_lo)
    also have "\<dots> = x * of_int q" using x qpos by simp
    finally show ?thesis using qpos by (simp add: mult_le_cancel_right)
  qed
  have il: "ilog2 x = (if power_int 2 ?k \<le> x then ?k else ?k - 1)"
    by (simp add: ilog2_def pq Let_def)
  show "power_int 2 (ilog2 x) \<le> x"
    using lo by (simp add: il)
  show "x < power_int 2 (ilog2 x + 1)"
    using hi by (simp add: il not_le)
qed

lemma round_half_even_error: "\<bar>of_int (round_half_even y) - y\<bar> \<le> 1 / 2"
proof -
  define r where "r = y - of_int \<lfloor>y\<rfloor>"
  have r: "0 \<le> r" "r < 1" unfolding r_def by linarith+
  have y: "y = of_int \<lfloor>y\<rfloor> + r" unfolding r_def by simp
  consider "r < 1 / 2" | "1 / 2 < r" | "r = 1 / 2" by linarith
  then show ?thesis
  proof cases
    case 1
    then have "round_half_even y = \<lfloor>y\<rfloor>"
      by (simp add: round_half_even_def Let_def r_def)
    with 1 r show ?thesis by (subst (2) y) simp
  next
    case 2
    then have "round_half_even y = \<lfloor>y\<rfloor> + 1"
      by (simp add: round_half_even_def Let_def r_def not_less)
    with 2 r show ?thesis by (subst (2) y) simp
  next
    case 3
    then have "round_half_even y = \<lfloor>y\<rfloor> \<or> round_half_even y = \<lfloor>y\<rfloor> + 1"
      by (simp add: round_half_even_def Let_def r_def)
    with 3 show ?thesis by (subst (2) y) auto
  qed
qed

lemma round_half_even_nonneg: "0 \<le> y \<Longrightarrow> 0 \<le> round_half_even y"
  by (simp add: round_half_even_def Let_def)

lemma abs_scaled_diff:
  fixes m x u :: rat
  assumes "0 < u"
  shows "\<bar>m * u - x\<bar> = \<bar>m - x / u\<bar> * u"
proof -
  have "m * u - x = (m - x / u) * u" using assms by (simp add: field_simps)
  then show ?thesis using assms by (simp add: abs_mult)
qed

lemma round_nearest_even_error:
  assumes "0 < x"
  shows "\<bar>round_nearest_even prec x - x\<bar> \<le> x / 2 ^ prec"
proof -
  let ?e = "ilog2 x - (int prec - 1)"
  let ?u = "power_int (2 :: rat) ?e"
  have u: "0 < ?u" by (simp add: zero_less_power_int)
  have rn: "round_nearest_even prec x = of_int (round_half_even (x / ?u)) * ?u"
    using assms by (simp add: round_nearest_even_def Let_def)
  have "\<bar>of_int (round_half_even (x / ?u)) * ?u - x\<bar>
          = \<bar>of_int (round_half_even (x / ?u)) - x / ?u\<bar> * ?u"
    using u by (rule abs_scaled_diff)
  also have "\<dots> \<le> 1 / 2 * ?u"
    using round_half_even_error [of "x / ?u"] u by (simp add: mult_right_mono)
  also have "\<dots> = power_int 2 (ilog2 x) / 2 ^ prec"
    by (simp add: power_int_diff power_int_add field_simps)
  also have "\<dots> \<le> x / 2 ^ prec"
    using ilog2_bounds(1) [OF assms] by (simp add: divide_right_mono)
  finally show ?thesis by (simp add: rn)
qed

text \<open>
  For every value that the loop can pass (0 to 32,000,000) the scaled quotient is within
  the range of \<^verbatim>\<open>int32_t\<close>: the undefined conversion is never reached, and neither a call
  of \<^verbatim>\<open>sendFrequency\<close> from the loop nor a run of the program depends on \<open>oor\<close>.
\<close>

lemma double_round_bounds:
  assumes "0 < x"
  shows "0 < round_nearest_even double_prec x"
    and "round_nearest_even double_prec x \<le> x * (11 / 10)"
proof -
  have e: "\<bar>round_nearest_even double_prec x - x\<bar> \<le> x / 2 ^ 53"
    using round_nearest_even_error [OF assms, of double_prec] by (simp add: double_prec_def)
  have "x / 2 ^ 53 \<le> x / 10" using assms by (simp add: field_simps)
  with e have "\<bar>round_nearest_even double_prec x - x\<bar> \<le> x / 10" by linarith
  with assms show "0 < round_nearest_even double_prec x"
    and "round_nearest_even double_prec x \<le> x * (11 / 10)"
    by linarith+
qed

lemma double_consts:
  "double_of_int 4294967295 = 4294967295" "double_of_int 125000000 = 125000000"
  "double_of_int 0 = 0"
  by code_simp+

lemma double_of_int_bounds:
  assumes "0 < v"
  shows "0 < double_of_int v" and "double_of_int v \<le> of_int v * (11 / 10)"
  using double_round_bounds [of "of_int v"] assms by (simp_all add: double_of_int_def)

lemma scaled_in_range:
  assumes "0 \<le> v" and "v \<le> 32000000"
  shows "0 \<le> double_div (double_mul (double_of_int v) (double_of_int 4294967295))
                  (double_of_int 125000000)"
    and "double_div (double_mul (double_of_int v) (double_of_int 4294967295))
                  (double_of_int 125000000) < 2 ^ 31"
proof -
  let ?a = "double_of_int v"
  let ?m = "double_mul ?a 4294967295"
  let ?q = "double_div ?m 125000000"
  have "0 \<le> ?q \<and> ?q < 2 ^ 31"
  proof (cases "v = 0")
    case True
    then show ?thesis
      by (simp add: double_consts double_mul_def double_div_def round_nearest_even_def)
  next
    case False
    with assms have v: "0 < v" by simp
    have a: "0 < ?a" "?a \<le> 35200000"
    proof -
      show "0 < ?a" using v by (rule double_of_int_bounds)
      have "?a \<le> of_int v * (11 / 10)" using v by (rule double_of_int_bounds)
      also have "\<dots> \<le> of_int 32000000 * (11 / 10)"
        using assms(2) by (simp only: mult_le_cancel_right of_int_le_iff) simp
      finally show "?a \<le> 35200000" by simp
    qed
    have ac: "0 < ?a * 4294967295" "?a * 4294967295 \<le> 35200000 * 4294967295"
      using a by simp_all
    have m: "0 < ?m" "?m \<le> 166301133662400000"
    proof -
      show "0 < ?m" using double_round_bounds(1) [OF ac(1)] by (simp add: double_mul_def)
      have "?m \<le> ?a * 4294967295 * (11 / 10)"
        using double_round_bounds(2) [OF ac(1)] by (simp add: double_mul_def)
      also have "\<dots> \<le> 35200000 * 4294967295 * (11 / 10)"
        using ac(2) by simp
      finally show "?m \<le> 166301133662400000" by simp
    qed
    have md: "0 < ?m / 125000000" "?m / 125000000 \<le> 166301133662400000 / 125000000"
      using m by (simp_all add: divide_right_mono)
    have "0 < ?q" using double_round_bounds(1) [OF md(1)] by (simp add: double_div_def)
    moreover have "?q < 2 ^ 31"
    proof -
      have "?q \<le> ?m / 125000000 * (11 / 10)"
        using double_round_bounds(2) [OF md(1)] by (simp add: double_div_def)
      also have "\<dots> \<le> 166301133662400000 / 125000000 * (11 / 10)"
        using md(2) by simp
      also have "\<dots> < 2 ^ 31" by simp
      finally show ?thesis .
    qed
    ultimately show ?thesis by simp
  qed
  then show "0 \<le> double_div (double_mul (double_of_int v) (double_of_int 4294967295))
                  (double_of_int 125000000)"
    and "double_div (double_mul (double_of_int v) (double_of_int 4294967295))
                  (double_of_int 125000000) < 2 ^ 31"
    by (simp_all add: double_consts)
qed

lemma sendFrequency_freq_in_range:
  assumes "0 \<le> v" and "v \<le> 32000000"
  shows "sendFrequency_freq oor (double_of_int v)
           = word_of_int \<lfloor>double_div (double_mul (double_of_int v) (double_of_int 4294967295))
                  (double_of_int 125000000)\<rfloor>"
proof -
  let ?q = "double_div (double_mul (double_of_int v) (double_of_int 4294967295))
                  (double_of_int 125000000)"
  have q: "0 \<le> ?q" "?q < 2 ^ 31" using assms by (rule scaled_in_range)+
  then have "0 \<le> \<lfloor>?q\<rfloor>" "\<lfloor>?q\<rfloor> < 2 ^ 31"
    by (simp_all add: floor_less_iff)
  with q(1) show ?thesis
    by (simp add: sendFrequency_freq_def double_to_int32_def trunc_rat_def Let_def)
qed

lemma sendFrequency_in_range:
  assumes "0 \<le> v" and "v \<le> 32000000"
  shows "sendFrequency oor (double_of_int v) = sendFrequency oor' (double_of_int v)"
  by (simp add: sendFrequency_def sendFrequency_freq_in_range [OF assms])

lemma loop_val_oor: "loop_val oor s = loop_val oor' s"
proof -
  have hi: "sendFrequency oor (double_of_int (sint maxVal))
              = sendFrequency oor' (double_of_int (sint maxVal))"
    by (rule sendFrequency_in_range) (simp_all add: maxVal_def)
  have lo: "sendFrequency oor (double_of_int (sint minVal))
              = sendFrequency oor' (double_of_int (sint minVal))"
    by (rule sendFrequency_in_range) (simp_all add: minVal_def)
  have mid: "sendFrequency oor (double_of_int (sint (encoderVal s)))
              = sendFrequency oor' (double_of_int (sint (encoderVal s)))"
    if "\<not> maxVal <s encoderVal s" "\<not> encoderVal s <s minVal"
    using that
    by (intro sendFrequency_in_range) (simp_all add: maxVal_def minVal_def word_sless_alt)
  show ?thesis
    by (simp add: loop_val_def Let_def hi lo mid)
qed

lemma do_step_oor: "do_step oor e s = do_step oor' e s"
  by (cases e) (simp_all add: loop_def loop_val_oor [of oor _ oor'])

lemma run_from_oor: "run_from oor s steps = run_from oor' s steps"
  by (induction steps arbitrary: s) (simp_all add: do_step_oor [of oor _ _ oor'])

lemma run_oor: "run oor steps = run oor' steps"
  by (simp add: run_def run_from_oor [of oor _ _ oor'])

text \<open>
  For every such value the word that the code computes is the tuning word of the
  specification or one less, and decoding it misses the frequency by less than two
  quantisation steps.
\<close>

lemma double_round_rel:
  assumes "0 < x"
  shows "x * (1 - 1 / 2 ^ 53) \<le> round_nearest_even double_prec x"
    and "round_nearest_even double_prec x \<le> x * (1 + 1 / 2 ^ 53)"
proof -
  define d where "d = x / 2 ^ 53"
  define r where "r = round_nearest_even double_prec x"
  have e: "\<bar>r - x\<bar> \<le> d"
    using round_nearest_even_error [OF assms, of double_prec]
    by (simp add: double_prec_def d_def r_def)
  have lo: "x * (1 - 1 / 2 ^ 53) = x - d" and hi: "x * (1 + 1 / 2 ^ 53) = x + d"
    unfolding d_def by (simp_all only: right_diff_distrib distrib_left mult_1_right
        times_divide_eq_right)
  from e have "x - d \<le> r" "r \<le> x + d" by linarith+
  then show "x * (1 - 1 / 2 ^ 53) \<le> round_nearest_even double_prec x"
    and "round_nearest_even double_prec x \<le> x * (1 + 1 / 2 ^ 53)"
    unfolding lo hi r_def .
qed

lemma scaled_near_exact:
  assumes "0 < v"
  defines "q \<equiv> double_div (double_mul (double_of_int v) (double_of_int 4294967295))
                  (double_of_int 125000000)"
  shows "of_int v * 4294967295 / 125000000 * (1 - 1 / 2 ^ 53) ^ 3 \<le> q"
    and "q \<le> of_int v * 4294967295 / 125000000 * (1 + 1 / 2 ^ 53) ^ 3"
proof -
  let ?lo = "1 - 1 / 2 ^ 53 :: rat" and ?hi = "1 + 1 / 2 ^ 53 :: rat"
  have lo: "0 < ?lo" and hi: "0 < ?hi" by simp_all
  let ?v = "of_int v :: rat"
  let ?a = "double_of_int v"
  let ?m = "double_mul ?a 4294967295"
  have v: "0 < ?v" using assms(1) by simp
  have a: "?v * ?lo \<le> ?a" "?a \<le> ?v * ?hi"
    using double_round_rel [OF v] by (simp_all add: double_of_int_def)
  have apos: "0 < ?a" using a(1) v lo by (meson less_le_trans mult_pos_pos)
  then have acpos: "0 < ?a * 4294967295" by simp
  have m: "?a * 4294967295 * ?lo \<le> ?m" "?m \<le> ?a * 4294967295 * ?hi"
    using double_round_rel [OF acpos] by (simp_all add: double_mul_def)
  have mpos: "0 < ?m" using m(1) acpos lo by (meson less_le_trans mult_pos_pos)
  then have mdpos: "0 < ?m / 125000000" by simp
  have q: "?m / 125000000 * ?lo \<le> q" "q \<le> ?m / 125000000 * ?hi"
    using double_round_rel [OF mdpos] by (simp_all add: q_def double_div_def double_consts)
  have "?v * 4294967295 / 125000000 * ?lo ^ 3 = (?v * ?lo) * 4294967295 * ?lo / 125000000 * ?lo"
    by (simp add: power3_eq_cube)
  also have "\<dots> \<le> ?a * 4294967295 * ?lo / 125000000 * ?lo"
    using a(1) lo by (simp add: mult_right_mono divide_right_mono)
  also have "\<dots> \<le> ?m / 125000000 * ?lo"
    using m(1) lo by (simp add: mult_right_mono divide_right_mono)
  also have "\<dots> \<le> q" by (rule q(1))
  finally show "?v * 4294967295 / 125000000 * ?lo ^ 3 \<le> q" .
  have "q \<le> ?m / 125000000 * ?hi" by (rule q(2))
  also have "\<dots> \<le> ?a * 4294967295 * ?hi / 125000000 * ?hi"
    using m(2) hi by (simp add: mult_right_mono divide_right_mono)
  also have "\<dots> \<le> (?v * ?hi) * 4294967295 * ?hi / 125000000 * ?hi"
    using a(2) hi by (simp add: mult_right_mono divide_right_mono)
  also have "\<dots> = ?v * 4294967295 / 125000000 * ?hi ^ 3"
    by (simp add: power3_eq_cube)
  finally show "q \<le> ?v * 4294967295 / 125000000 * ?hi ^ 3" .
qed

lemma scale_constants:
  "4294967295 * (1 + 1 / 2 ^ 53) ^ 3 < (2 ^ 32 :: rat)"
  "2 ^ 32 - 4294967295 * (1 - 1 / 2 ^ 53) ^ 3 < (125 / 32 :: rat)"
  "0 \<le> 2 ^ 32 - 4294967295 * (1 - 1 / 2 ^ 53) ^ 3 + (0 :: rat)"
  by code_simp+

lemma scaled_near_spec:
  assumes "0 < v" and "v \<le> 32000000"
  defines "q \<equiv> double_div (double_mul (double_of_int v) (double_of_int 4294967295))
                  (double_of_int 125000000)"
  defines "t \<equiv> (of_int v :: rat) * 2 ^ 32 / 125000000"
  shows "t - 1 < q" and "q < t"
proof -
  define k_lo :: rat where "k_lo = 4294967295 * (1 - 1 / 2 ^ 53) ^ 3"
  define k_hi :: rat where "k_hi = 4294967295 * (1 + 1 / 2 ^ 53) ^ 3"
  define r :: rat where "r = of_int v / 125000000"
  have k: "k_hi < 2 ^ 32" "2 ^ 32 - k_lo < 125 / 32"
    unfolding k_lo_def k_hi_def by (rule scale_constants)+
  have r: "0 < r" "r \<le> 32 / 125"
    using assms(1,2) by (simp_all add: r_def)
  have t: "t = r * 2 ^ 32" by (simp add: t_def r_def)
  have "r * k_lo \<le> q" "q \<le> r * k_hi"
    using scaled_near_exact [OF assms(1)] by (simp_all add: q_def r_def k_lo_def k_hi_def)
  moreover have "r * k_hi < r * 2 ^ 32"
    using k(1) r(1) by (simp only: mult_less_cancel_left_pos)
  moreover have "r * 2 ^ 32 - r * k_lo < 1"
  proof -
    have nn: "0 \<le> 2 ^ 32 - k_lo"
      using scale_constants(3) unfolding k_lo_def by (simp only: add_0_right)
    have "r * (2 ^ 32 - k_lo) \<le> 32 / 125 * (2 ^ 32 - k_lo)"
      using r(2) nn by (rule mult_right_mono)
    also have "\<dots> < 32 / 125 * (125 / 32)"
      using k(2) by (rule mult_strict_left_mono) simp
    finally show ?thesis by (simp add: right_diff_distrib)
  qed
  ultimately show "t - 1 < q" and "q < t"
    unfolding t by linarith+
qed

lemma tuning_word_near_spec:
  assumes "0 \<le> v" and "v \<le> 32000000"
  shows "sint (sendFrequency_freq oor (double_of_int v)) = spec_tuning_word v
       \<or> sint (sendFrequency_freq oor (double_of_int v)) = spec_tuning_word v - 1"
proof (cases "v = 0")
  case True
  have "sendFrequency_freq oor (double_of_int 0) = 0" by code_simp
  with True show ?thesis by (simp add: spec_tuning_word_def)
next
  case False
  with assms have v: "0 < v" by simp
  let ?q = "double_div (double_mul (double_of_int v) (double_of_int 4294967295))
                  (double_of_int 125000000)"
  let ?t = "(of_int v :: rat) * 2 ^ 32 / 125000000"
  have q: "?t - 1 < ?q" "?q < ?t" using v assms(2) by (rule scaled_near_spec)+
  have rng: "0 \<le> ?q" "?q < 2 ^ 31" using assms by (rule scaled_in_range)+
  then have fl: "0 \<le> \<lfloor>?q\<rfloor>" "\<lfloor>?q\<rfloor> < 2 ^ 31" by (simp_all add: floor_less_iff)
  have w: "sint (sendFrequency_freq oor (double_of_int v)) = \<lfloor>?q\<rfloor>"
    using fl by (simp add: sendFrequency_freq_in_range [OF assms] sint_word_of_int_32)
  have "\<lfloor>?q\<rfloor> \<le> \<lfloor>?t\<rfloor>"
    by (rule floor_mono) (rule less_imp_le [OF q(2)])
  moreover have "\<lfloor>?t\<rfloor> - 1 \<le> \<lfloor>?q\<rfloor>"
  proof -
    have "\<lfloor>?t - 1\<rfloor> \<le> \<lfloor>?q\<rfloor>"
      by (rule floor_mono) (rule less_imp_le [OF q(1)])
    then show ?thesis by (simp only: floor_diff_one)
  qed
  ultimately show ?thesis
    unfolding w spec_tuning_word_def by linarith
qed

lemma roundtrip_within_two_steps:
  assumes "0 \<le> v" and "v \<le> 32000000"
  shows "\<bar>spec_decode (sendFrequency_freq oor (double_of_int v)) - of_int v\<bar>
           < 2 * (125000000 / 2 ^ 32)"
proof -
  define w where "w = sendFrequency_freq oor (double_of_int v)"
  define k where "k = sint w"
  define t :: rat where "t = of_int v * 2 ^ 32 / 125000000"
  define step :: rat where "step = 125000000 / 2 ^ 32"
  have step: "0 < step" by (simp add: step_def)
  define f :: rat where "f = of_int \<lfloor>t\<rfloor>"
  have f: "f \<le> t" "t < f + 1" unfolding f_def by linarith+
  have "k = \<lfloor>t\<rfloor> \<or> k = \<lfloor>t\<rfloor> - 1"
    using tuning_word_near_spec [OF assms, of oor]
    by (simp add: k_def w_def t_def spec_tuning_word_def)
  then have near: "of_int k = f \<or> of_int k = f - 1"
    by (auto simp: f_def)
  have wt: "t - 2 < of_int k" "of_int k \<le> t"
    using near f by linarith+
  have nonneg: "0 \<le> k"
  proof -
    have "0 \<le> \<lfloor>double_div (double_mul (double_of_int v) (double_of_int 4294967295))
                (double_of_int 125000000)\<rfloor>" (is "0 \<le> \<lfloor>?q\<rfloor>")
      using scaled_in_range(1) [OF assms] by simp
    moreover have "\<lfloor>?q\<rfloor> < 2 ^ 31"
      using scaled_in_range(2) [OF assms] by (simp add: floor_less_iff)
    ultimately show ?thesis
      by (simp add: k_def w_def sendFrequency_freq_in_range [OF assms] sint_word_of_int_32)
  qed
  have "k < 2 ^ 32" using sint_long_bounds(2) [of w] by (simp add: k_def)
  with nonneg have u: "uint w = k"
    by (simp add: uint_sint k_def [symmetric] take_bit_int_eq_self)
  have dec: "spec_decode w - of_int v = (of_int k - t) * step"
    by (simp add: spec_decode_def u t_def step_def field_simps)
  have "- (2 * step) < (of_int k - t) * step"
  proof -
    have "(- 2) * step < (of_int k - t) * step"
      using wt(1) step by (intro mult_strict_right_mono) simp_all
    then show ?thesis by simp
  qed
  moreover have "(of_int k - t) * step \<le> 0"
    using wt(2) step by (simp add: mult_le_0_iff)
  ultimately show ?thesis
    unfolding w_def [symmetric] step_def [symmetric] dec by linarith
qed

text \<open>The word at some frequencies.\<close>

lemma tuning_word_2100: "sendFrequency_freq oor (double_of_int 2100) = 72155"
  by code_simp

lemma tuning_word_1953125: "sendFrequency_freq oor (double_of_int 1953125) = 67108863"
  by code_simp

lemma tuning_word_30000000: "sendFrequency_freq oor (double_of_int 30000000) = 1030792150"
  by code_simp

lemma tuning_word_single_30000000: "sendFrequency_freq_single oor 30000000 = 1030792128"
  by code_simp

text \<open>
  C1. At 30,000,000 Hz the word that \<^verbatim>\<open>sendFrequency\<close> serialises is 1,030,792,150,
  while \<open>floor(f * 2^32 / 125,000,000)\<close> is 1,030,792,151: the code scales by
  4294967295, which is \<open>2^32 - 1\<close>. (Were \<^verbatim>\<open>double\<close> 32 bits wide, the word would be
  1,030,792,128.) Likewise at 1,953,125 Hz, 1/64 of the reference clock: 67,108,863
  against 67,108,864.
\<close>

theorem tuning_word_off_by_one:
  "sendFrequency_freq oor (double_of_int 30000000) = 1030792150
   \<and> spec_tuning_word 30000000 = 1030792151
   \<and> sendFrequency_freq_single oor 30000000 = 1030792128
   \<and> sendFrequency_freq oor (double_of_int 1953125) = 67108863
   \<and> spec_tuning_word 1953125 = 67108864"
  by (simp add: tuning_word_30000000 tuning_word_single_30000000 tuning_word_1953125
      spec_tuning_word_div)

text \<open>
  C8. At 30,000,000 Hz the word that \<^verbatim>\<open>sendFrequency\<close> serialises is 1,030,792,150, and
  decoding it misses 30,000,000 by more than one quantisation step
  \<open>125,000,000 / 2^32\<close> (so does the word computed with a 32-bit \<^verbatim>\<open>double\<close>); the word
  \<open>floor(f * 2^32 / 125,000,000)\<close> is within one step.
\<close>

theorem roundtrip_exceeds_step:
  "sendFrequency_freq oor (double_of_int 30000000) = 1030792150
   \<and> 125000000 / 2 ^ 32
       < \<bar>spec_decode (sendFrequency_freq oor (double_of_int 30000000)) - 30000000\<bar>
   \<and> 125000000 / 2 ^ 32
       < \<bar>spec_decode (sendFrequency_freq_single oor 30000000) - 30000000\<bar>
   \<and> \<bar>spec_decode (word_of_int (spec_tuning_word 30000000)) - 30000000\<bar>
       \<le> 125000000 / 2 ^ 32"
  by (simp add: tuning_word_30000000 tuning_word_single_30000000 spec_tuning_word_div
      spec_decode_def)

subsection \<open>End to end\<close>

lemma scenario_values:
  "sint (encoderVal (run oor [])) = 1000"
  "sint (encoderInc (run oor [])) = 1000"
  "sint (encoderVal (run oor [Irq_Encoder1 HIGH HIGH])) = 2000"
  "sint (encoderInc (run oor [Irq_Encoder1 HIGH HIGH, Irq_Encoder1 LOW LOW, Irq_Button,
      Loop_pass])) = 100"
  "sint (encoderVal (run oor [Irq_Encoder1 HIGH HIGH, Irq_Encoder1 LOW LOW, Irq_Button,
      Loop_pass, Irq_Encoder1 HIGH HIGH])) = 2100"
  by code_simp+

text \<open>
  C7, as the specification has it, fails in its last part: the tuning word for 2100 Hz
  is not 72.
\<close>

theorem end_to_end_counterexample:
  "\<not> (sint (encoderVal (run oor_saturate [Irq_Encoder1 HIGH HIGH])) = 2000
      \<and> sint (encoderInc (run oor_saturate
            [Irq_Encoder1 HIGH HIGH, Irq_Encoder1 LOW LOW, Irq_Button, Loop_pass])) = 100
      \<and> sint (encoderVal (run oor_saturate
            [Irq_Encoder1 HIGH HIGH, Irq_Encoder1 LOW LOW, Irq_Button, Loop_pass,
             Irq_Encoder1 HIGH HIGH])) = 2100
      \<and> sendFrequency_freq oor_saturate (double_of_int 2100) = 72)"
  by (simp add: tuning_word_2100)

text \<open>
  C7, amended. The program starts with value 1000 and increment 1000. A rising edge on
  channel A with channel B low gives value 2000; after the falling edge of A, a button
  press and a pass of the loop the increment is 100; a further rising edge on A gives
  value 2100; and the tuning word that \<^verbatim>\<open>sendFrequency\<close> computes for 2100 is 72155, which
  is also \<open>floor(2100 * 2^32 / 125,000,000)\<close>.
\<close>

theorem end_to_end:
  "sint (encoderVal (run oor [])) = 1000
   \<and> sint (encoderInc (run oor [])) = 1000
   \<and> sint (encoderVal (run oor [Irq_Encoder1 HIGH HIGH])) = 2000
   \<and> sint (encoderInc (run oor
         [Irq_Encoder1 HIGH HIGH, Irq_Encoder1 LOW LOW, Irq_Button, Loop_pass])) = 100
   \<and> sint (encoderVal (run oor
         [Irq_Encoder1 HIGH HIGH, Irq_Encoder1 LOW LOW, Irq_Button, Loop_pass,
          Irq_Encoder1 HIGH HIGH])) = 2100
   \<and> sendFrequency_freq oor (double_of_int 2100) = 72155
   \<and> spec_tuning_word 2100 = 72155"
  by (simp only: scenario_values tuning_word_2100 spec_tuning_word_div simp_thms) simp

end
